theory Spec2Isabelle
  imports Main "HOL-Library.AList"
begin

section \<open>Data model\<close>

text \<open>
  Values that a results dictionary can hold. The source types them as \<open>Any\<close>; the
  fingerprint is a Python \<open>str\<close>, so \<open>VStr\<close> is the case that matters for the
  comparison in \<open>check_if_must_be_run\<close>; any other value differs from every string.
\<close>

datatype val = VStr string | VInt int | VBool bool | VNone | VList "val list"

type_synonym results_map = "string \<rightharpoonup> val"

text \<open>\<open>ArtProjectState.step_states\<close>: model name, then the step's label, then its results.\<close>

type_synonym states_map = "string \<rightharpoonup> (string \<rightharpoonup> results_map)"

text \<open>Exceptions of the source, as values.\<close>

datatype error =
    KeyError string
  | IndexError
  | FileNotFoundError string string
  | CheckException string
  | DoException string

text \<open>
  The abstract method \<open>do\<close> of a step: it reads the previous states and the step's own
  results, and either returns or raises, in both cases leaving a (possibly partially
  populated) results dictionary behind.
\<close>

datatype do_outcome = Returned results_map | Raised string results_map

text \<open>
  The trainable unit of a \<open>ModelStep\<close>: only what \<open>step.py\<close> reads from it, the name
  of its class (\<open>self.model.__class__.__name__\<close>), its hash (\<open>self.model.get_hash()\<close>)
  and the metric calculator that \<open>set_metric_calculator\<close> stores.
\<close>

record ArtModule =
  class_name :: string
  module_hash :: string
  module_metric_calculator :: "string list option"

text \<open>
  A step object. \<open>model = None\<close> is a plain \<open>Step\<close>, \<open>model = Some m\<close> a \<open>ModelStep\<close>.
  \<open>source_md5\<close> is the MD5 digest of the source text of the step's class, which
  \<open>Step.get_hash\<close> computes with \<open>hashlib\<close> and \<open>inspect\<close>.
\<close>

record Step =
  idx :: int
  name :: string
  results :: results_map
  model :: "ArtModule option"
  source_md5 :: string
  do :: "states_map \<Rightarrow> results_map \<Rightarrow> do_outcome"
  datamodule :: "nat option"

text \<open>
  A check, with the shape the specification gives it:
  \<open>evaluate(step) -> {isPositive, error}\<close>.
\<close>

record CheckResult =
  is_positive :: bool
  error :: string

type_synonym Check = "Step \<Rightarrow> CheckResult"

text \<open>
  An entry of \<open>ArtProject.steps\<close>: the dictionary with the keys \<open>step\<close>, \<open>checks\<close> and
  \<open>skipped_metrics\<close>. The step is held by reference, so the entry stores the address of
  the step object.
\<close>

record StepRecord =
  step :: nat
  checks :: "Check list"
  skipped_metrics :: "string list"

record StepStatus =
  status :: string
  status_results :: results_map

text \<open>What the runner prints, one constructor for each \<open>print\<close> of the source.\<close>

datatype printed =
    ModelChanged string
  | StepFailedMsg string error
  | StatusHeader
  | StatusLine string StepStatus

text \<open>
  The project with everything it reaches: the registry, the data module, the project
  state (\<open>step_states\<close>, \<open>current_step\<close>), the exclusions last compiled into the metric
  calculator, the step objects by address, the result store and the standard output.

  Modelled from the spec: \<open>JSONStepSaver\<close> (module \<open>art.step.step_savers\<close>) is the result
  store, "keyed by the tuple (stepId, stepName); one record per step identifier", with
  \<open>save\<close>, \<open>load\<close> and \<open>exists\<close>; \<open>store\<close> is that mapping.
  Modelled from the spec: \<open>ArtProjectState\<close> (module \<open>art.experiment.experiment_state\<close>)
  holds "a mapping from model name to mapping from step label to that step's results"
  and "a transient pointer to the step currently executing".
\<close>

record ArtProject =
  steps :: "StepRecord list"
  project_datamodule :: nat
  step_states :: states_map
  current_step :: "nat option"
  compiled_skipped :: "string list"
  heap :: "nat \<Rightarrow> Step"
  store :: "string \<times> string \<rightharpoonup> results_map"
  out :: "printed list"

section \<open>Formatting an integer as Python does\<close>

definition digit_char :: "nat \<Rightarrow> char" where
  "digit_char d = ''0123456789'' ! d"

fun str_nat :: "nat \<Rightarrow> string" where
  "str_nat n = (if n < 10 then [digit_char n] else str_nat (n div 10) @ [digit_char (n mod 10)])"

declare str_nat.simps [simp del]

definition str_int :: "int \<Rightarrow> string" where
  "str_int i = (if i < 0 then CHR ''-'' # str_nat (nat (- i)) else str_nat (nat i))"

text \<open>Reading a digit string back, to say what "the decimal string of n" is.\<close>

definition digit_value :: "char \<Rightarrow> nat" where
  "digit_value c = of_char c - 48"

definition decimal_value :: "string \<Rightarrow> nat" where
  "decimal_value cs = foldl (\<lambda>acc c. 10 * acc + digit_value c) 0 cs"

section \<open>The step (\<open>step.py\<close>)\<close>

definition get_model_name :: "Step \<Rightarrow> string" where
  "get_model_name s = (case model s of None \<Rightarrow> [] | Some m \<Rightarrow> class_name m)"

definition get_step_id :: "Step \<Rightarrow> string" where
  "get_step_id s =
     (case model s of
        None \<Rightarrow> str_int (idx s)
      | Some m \<Rightarrow>
          (if get_model_name s \<noteq> [] then get_model_name s @ ''_'' @ str_int (idx s)
           else str_int (idx s)))"

definition get_name_with_id :: "Step \<Rightarrow> string" where
  "get_name_with_id s = str_int (idx s) @ ''_'' @ name s"

definition get_full_step_name :: "Step \<Rightarrow> string" where
  "get_full_step_name s = get_step_id s @ ''_'' @ name s"

definition get_hash :: "Step \<Rightarrow> string" where
  "get_hash s = (case model s of None \<Rightarrow> source_md5 s | Some m \<Rightarrow> module_hash m)"

text \<open>
  What the identifier, the names and the fingerprint of a step are computed from,
  together with its \<open>do\<close>: the part of a step that running the pipeline never writes.
\<close>

definition static :: "Step \<Rightarrow> int \<times> string \<times> string \<times> string \<times> (states_map \<Rightarrow> results_map \<Rightarrow> do_outcome)" where
  "static s = (idx s, name s, get_model_name s, get_hash s, do s)"

definition set_step_id :: "int \<Rightarrow> Step \<Rightarrow> Step" where
  "set_step_id i s = s\<lparr>idx := i\<rparr>"

definition add_result :: "string \<Rightarrow> val \<Rightarrow> Step \<Rightarrow> Step" where
  "add_result k v s = s\<lparr>results := (results s)(k \<mapsto> v)\<rparr>"

definition get_results :: "Step \<Rightarrow> results_map" where
  "get_results s = results s"

definition was_run :: "nat \<Rightarrow> ArtProject \<Rightarrow> bool" where
  "was_run a p = (store p (get_step_id (heap p a), name (heap p a)) \<noteq> None)"

definition load_results :: "nat \<Rightarrow> ArtProject \<Rightarrow> error + ArtProject" where
  "load_results a p =
     (let s = heap p a in
      case store p (get_step_id s, name s) of
        None \<Rightarrow> Inl (FileNotFoundError (get_step_id s) (name s))
      | Some r \<Rightarrow> Inr (p\<lparr>heap := (heap p)(a := s\<lparr>results := r\<rparr>)\<rparr>))"

text \<open>
  \<open>Step.__call__\<close> and \<open>ModelStep.__call__\<close>: set the data module, (for a model step)
  hand the metric calculator to the model, run \<open>do\<close>, then save. An exception of
  \<open>do\<close> leaves the method before \<open>save\<close>.
\<close>

definition call :: "nat \<Rightarrow> ArtProject \<Rightarrow> error option \<times> ArtProject" where
  "call a p =
     (let s0 = heap p a;
          s1 = s0\<lparr>datamodule := Some (project_datamodule p)\<rparr>;
          s2 = (case model s1 of
                  None \<Rightarrow> s1
                | Some m \<Rightarrow> s1\<lparr>model := Some (m\<lparr>module_metric_calculator := Some (compiled_skipped p)\<rparr>)\<rparr>)
      in case do s2 (step_states p) (results s2) of
           Raised msg r \<Rightarrow>
             (Some (DoException msg), p\<lparr>heap := (heap p)(a := s2\<lparr>results := r\<rparr>)\<rparr>)
         | Returned r \<Rightarrow>
             (let s3 = s2\<lparr>results := r\<rparr> in
              (None, p\<lparr>heap := (heap p)(a := s3),
                        store := (store p)((get_step_id s3, name s3) \<mapsto> results s3)\<rparr>)))"

section \<open>The project (\<open>Experiment.py\<close>)\<close>

definition add_step :: "nat \<Rightarrow> Check list \<Rightarrow> string list \<Rightarrow> ArtProject \<Rightarrow> ArtProject" where
  "add_step a cs sk p =
     (let recs = steps p @ [\<lparr>step = a, checks = cs, skipped_metrics = sk\<rparr>]
      in p\<lparr>steps := recs, heap := (heap p)(a := set_step_id (int (length recs)) (heap p a))\<rparr>)"

definition fill_step_states :: "nat \<Rightarrow> ArtProject \<Rightarrow> ArtProject" where
  "fill_step_states a p =
     (let s = heap p a;
          inner = (case step_states p (get_model_name s) of None \<Rightarrow> Map.empty | Some m \<Rightarrow> m)
      in p\<lparr>step_states :=
            (step_states p)(get_model_name s \<mapsto> inner(get_name_with_id s \<mapsto> get_results s))\<rparr>)"

fun check_checks :: "Step \<Rightarrow> Check list \<Rightarrow> error option" where
  "check_checks s [] = None"
| "check_checks s (c # cs) =
     (let result = c s in
      if \<not> is_positive result
      then Some (CheckException (''Check failed for step: '' @ name s @ ''. Reason: '' @ error result))
      else check_checks s cs)"

definition check_if_must_be_run :: "nat \<Rightarrow> Check list \<Rightarrow> ArtProject \<Rightarrow> (error + bool) \<times> ArtProject" where
  "check_if_must_be_run a cs p =
     (if \<not> was_run a p then (Inr True, p)
      else
        (case load_results a p of
           Inl e \<Rightarrow> (Inl e, p)
         | Inr p1 \<Rightarrow>
             (case check_checks (heap p1 a) cs of
                Some e \<Rightarrow> (Inr True, p1)
              | None \<Rightarrow>
                  (let step_current_hash = get_hash (heap p1 a) in
                   case get_results (heap p1 a) ''hash'' of
                     None \<Rightarrow> (Inl (KeyError ''hash''), p1)
                   | Some step_saved_hash \<Rightarrow>
                       (let model_changed = (VStr step_current_hash \<noteq> step_saved_hash) in
                        if model_changed
                        then (Inr True,
                              p1\<lparr>out := out p1 @ [ModelChanged (get_full_step_name (heap p1 a))]\<rparr>)
                        else (Inr False, p1))))))"

type_synonym status_table = "(string \<times> StepStatus) list"

text \<open>The skip branch of the loop body (lines 100 to 102).\<close>

definition skip_step :: "nat \<Rightarrow> status_table \<Rightarrow> ArtProject \<Rightarrow> status_table \<times> ArtProject" where
  "skip_step a st p =
     (AList.update (get_full_step_name (heap p a))
        \<lparr>status = ''Skipped'', status_results = get_results (heap p a)\<rparr> st,
      fill_step_states a p)"

text \<open>Line 104: the fingerprint is written under the key \<open>hash\<close>.\<close>

definition stamp_hash :: "nat \<Rightarrow> ArtProject \<Rightarrow> ArtProject" where
  "stamp_hash a p =
     p\<lparr>heap := (heap p)(a := add_result ''hash'' (VStr (get_hash (heap p a))) (heap p a))\<rparr>"

text \<open>The \<open>try\<close> block with its handler, and the final \<open>fill_step_states\<close> (lines 106 to 114).\<close>

definition execute_step :: "nat \<Rightarrow> Check list \<Rightarrow> status_table \<Rightarrow> ArtProject \<Rightarrow> status_table \<times> ArtProject" where
  "execute_step a cs st p =
     (let (raised, p1) = call a p;
          failure = (case raised of Some e \<Rightarrow> Some e | None \<Rightarrow> check_checks (heap p1 a) cs);
          s = heap p1 a
      in case failure of
           None \<Rightarrow>
             (AList.update (get_full_step_name s)
                \<lparr>status = ''Completed'', status_results = get_results s\<rparr> st,
              fill_step_states a p1)
         | Some e \<Rightarrow>
             (AList.update (get_full_step_name s)
                \<lparr>status = ''Failed'', status_results = get_results s\<rparr> st,
              fill_step_states a (p1\<lparr>out := out p1 @ [StepFailedMsg (get_full_step_name s) e]\<rparr>)))"

text \<open>
  One turn of the loop of \<open>run_all\<close>. \<open>enter_step\<close> is its beginning (lines 94 to 97):
  the metric calculator is compiled with the record's skipped metrics and the current
  step is set. In the condition of line 99 Python evaluates
  \<open>check_if_must_be_run\<close> first and reads \<open>force_rerun\<close> only when the answer is false.
  An exception of \<open>check_if_must_be_run\<close> is outside the \<open>try\<close> block and leaves the loop.
\<close>

definition enter_step :: "StepRecord \<Rightarrow> ArtProject \<Rightarrow> ArtProject" where
  "enter_step r p = p\<lparr>compiled_skipped := skipped_metrics r, current_step := Some (step r)\<rparr>"

definition run_step :: "bool \<Rightarrow> StepRecord \<Rightarrow> status_table \<Rightarrow> ArtProject \<Rightarrow> error option \<times> status_table \<times> ArtProject" where
  "run_step force_rerun r st p =
     (let a = step r;
          cs = checks r;
          p2 = enter_step r p
      in case check_if_must_be_run a cs p2 of
           (Inl e, p3) \<Rightarrow> (Some e, st, p3)
         | (Inr must, p3) \<Rightarrow>
             (if \<not> must \<and> \<not> force_rerun
              then (case skip_step a st p3 of (st', p4) \<Rightarrow> (None, st', p4))
              else (case execute_step a cs st (stamp_hash a p3) of (st', p4) \<Rightarrow> (None, st', p4))))"

fun run_steps :: "bool \<Rightarrow> StepRecord list \<Rightarrow> status_table \<Rightarrow> ArtProject \<Rightarrow> error option \<times> status_table \<times> ArtProject" where
  "run_steps force_rerun [] st p = (None, st, p)"
| "run_steps force_rerun (r # rs) st p =
     (case run_step force_rerun r st p of
        (Some e, st', p') \<Rightarrow> (Some e, st', p')
      | (None, st', p') \<Rightarrow> run_steps force_rerun rs st' p')"

text \<open>
  \<open>run_all\<close>: the loop, then the report. When the loop is left by an exception the
  local status table is lost and nothing of the report is printed.
\<close>

definition run_all :: "bool \<Rightarrow> ArtProject \<Rightarrow> error option \<times> ArtProject" where
  "run_all force_rerun p =
     (case run_steps force_rerun (steps p) [] p of
        (Some e, st, p') \<Rightarrow> (Some e, p')
      | (None, st, p') \<Rightarrow>
          (None, p'\<lparr>out := out p' @ StatusHeader # map (\<lambda>(n, s). StatusLine n s) st\<rparr>))"

text \<open>Python's list indexing: a negative index counts from the end.\<close>

definition py_index :: "nat \<Rightarrow> int \<Rightarrow> nat option" where
  "py_index n i =
     (if 0 \<le> i \<and> i < int n then Some (nat i)
      else if - int n \<le> i \<and> i < 0 then Some (nat (int n + i))
      else None)"

definition replace_step :: "nat \<Rightarrow> int \<Rightarrow> ArtProject \<Rightarrow> error option \<times> ArtProject" where
  "replace_step a step_id p =
     (case py_index (length (steps p)) step_id of
        None \<Rightarrow> (Some IndexError, p)
      | Some k \<Rightarrow>
          (let recs = (steps p)[k := (steps p ! k)\<lparr>step := a\<rparr>];
               step_id' = (if step_id = - 1 then int (length recs) else step_id)
           in (None, p\<lparr>steps := recs, heap := (heap p)(a := set_step_id step_id' (heap p a))\<rparr>)))"

section \<open>Example steps and projects\<close>

text \<open>\<open>ArtProject.__init__\<close>: an empty registry and an empty project state.\<close>

definition init_project :: "nat \<Rightarrow> (nat \<Rightarrow> Step) \<Rightarrow> ArtProject" where
  "init_project dm h =
     \<lparr>steps = [], project_datamodule = dm, step_states = Map.empty, current_step = None,
      compiled_skipped = [], heap = h, store = Map.empty, out = []\<rparr>"

text \<open>Two shapes of \<open>do\<close>: one adds a result and returns, one adds a result and raises.\<close>

definition do_add :: "string \<Rightarrow> val \<Rightarrow> states_map \<Rightarrow> results_map \<Rightarrow> do_outcome" where
  "do_add k v prev r = Returned (r(k \<mapsto> v))"

definition do_raise :: "string \<Rightarrow> val \<Rightarrow> string \<Rightarrow> states_map \<Rightarrow> results_map \<Rightarrow> do_outcome" where
  "do_raise k v msg prev r = Raised msg (r(k \<mapsto> v))"

definition plain_step :: "string \<Rightarrow> string \<Rightarrow> (states_map \<Rightarrow> results_map \<Rightarrow> do_outcome) \<Rightarrow> Step" where
  "plain_step n h d =
     \<lparr>idx = 0, name = n, results = Map.empty, model = None, source_md5 = h, do = d,
      datamodule = None\<rparr>"

definition model_step :: "string \<Rightarrow> string \<Rightarrow> string \<Rightarrow> (states_map \<Rightarrow> results_map \<Rightarrow> do_outcome) \<Rightarrow> Step" where
  "model_step c n h d =
     \<lparr>idx = 0, name = n, results = Map.empty,
      model = Some \<lparr>class_name = c, module_hash = h, module_metric_calculator = None\<rparr>,
      source_md5 = [], do = d, datamodule = None\<rparr>"

text \<open>
  The registry of the specification's identifier example: a plain step, then a model step
  of class \<open>Resnet\<close> at index 2, then the plain step \<open>Preprocess\<close> at index 3.
\<close>

definition three_heap :: "nat \<Rightarrow> Step" where
  "three_heap a =
     (if a = 0 then plain_step ''Load'' ''aa11'' (do_add ''rows'' (VInt 10))
      else if a = 1 then model_step ''Resnet'' ''Train'' ''bb22'' (do_add ''loss'' (VInt 3))
      else plain_step ''Preprocess'' ''cc33'' (do_add ''clean'' (VBool True)))"

definition two_steps :: ArtProject where
  "two_steps = add_step 1 [] [] (add_step 0 [] [] (init_project 0 three_heap))"

text \<open>A check that asks for a result key, and a project with stored results.\<close>

definition has_key :: "string \<Rightarrow> Check" where
  "has_key k s = \<lparr>is_positive = (results s k \<noteq> None), error = ''no result '' @ k\<rparr>"

definition stored :: "string \<times> string \<Rightarrow> results_map \<Rightarrow> ArtProject \<Rightarrow> ArtProject" where
  "stored key r p = p\<lparr>store := (store p)(key \<mapsto> r)\<rparr>"

definition one_step :: ArtProject where
  "one_step = add_step 0 [has_key ''rows''] [] (init_project 0 three_heap)"

definition broken :: ArtProject where
  "broken = add_step 0 [] [] (init_project 0
     (\<lambda>a. plain_step ''Broken'' ''dd44'' (do_raise ''partial'' (VInt 1) ''boom'')))"









section \<open>Decimal strings\<close>

lemma digit_value_digit_char: "d < 10 \<Longrightarrow> digit_value (digit_char d) = d"
proof -
  assume "d < 10"
  then have "d \<in> {0,1,2,3,4,5,6,7,8,9}" by auto
  then show ?thesis by (auto simp: digit_value_def digit_char_def)
qed

lemma digit_char_is_digit: "d < 10 \<Longrightarrow> digit_char d \<in> set ''0123456789''"
proof -
  assume "d < 10"
  then have "d \<in> {0,1,2,3,4,5,6,7,8,9}" by auto
  then show ?thesis by (auto simp: digit_char_def)
qed

lemma decimal_value_snoc: "decimal_value (cs @ [c]) = 10 * decimal_value cs + digit_value c"
  by (simp add: decimal_value_def)

lemma decimal_value_str_nat: "decimal_value (str_nat n) = n"
proof (induction n rule: str_nat.induct)
  case (1 n)
  show ?case
  proof (cases "n < 10")
    case True
    then show ?thesis
      by (simp add: str_nat.simps [of n] decimal_value_def digit_value_digit_char)
  next
    case False
    with 1 have "decimal_value (str_nat (n div 10)) = n div 10" by simp
    with False show ?thesis
      by (simp add: str_nat.simps [of n] decimal_value_snoc digit_value_digit_char)
  qed
qed

lemma str_nat_digits: "c \<in> set (str_nat n) \<Longrightarrow> c \<in> set ''0123456789''"
proof (induction n rule: str_nat.induct)
  case (1 n)
  show ?case
  proof (cases "n < 10")
    case True
    with 1(2) have "c = digit_char n" by (simp add: str_nat.simps [of n])
    with True show ?thesis using digit_char_is_digit by blast
  next
    case False
    with 1(2) have "c \<in> set (str_nat (n div 10)) \<or> c = digit_char (n mod 10)"
      by (auto simp: str_nat.simps [of n])
    then show ?thesis
    proof
      assume "c \<in> set (str_nat (n div 10))"
      with 1(1) False show ?thesis by blast
    next
      assume "c = digit_char (n mod 10)"
      then show ?thesis using digit_char_is_digit [of "n mod 10"] by simp
    qed
  qed
qed

lemma str_nat_small: "n < 10 \<Longrightarrow> str_nat n = [digit_char n]"
  by (simp add: str_nat.simps [of n])

lemma str_int_nat: "str_int (int n) = str_nat n"
  by (simp add: str_int_def)

lemma str_nat_1 [simp]: "str_nat 1 = ''1''"
  and str_nat_2 [simp]: "str_nat 2 = ''2''"
  and str_nat_3 [simp]: "str_nat 3 = ''3''"
  and str_nat_Suc_0 [simp]: "str_nat (Suc 0) = ''1''"
  by (simp_all add: str_nat_small digit_char_def)

lemma str_int_1 [simp]: "str_int 1 = ''1''"
  and str_int_2 [simp]: "str_int 2 = ''2''"
  and str_int_3 [simp]: "str_int 3 = ''3''"
  by (simp_all add: str_int_def)

section \<open>Identifiers\<close>

text \<open>
  C8. A step that \<open>add_step\<close> registers gets the new length \<open>n\<close> of the registry as its
  index (so \<open>n\<close> is at least 1). The identifier of a plain step is the decimal string of
  \<open>n\<close> (digits only, reading back as \<open>n\<close>) and its full name is that string, an underscore
  and the step's name. The identifier of a model step is the model's class name, an
  underscore and the decimal string when the class name is not empty, and the bare
  decimal string when it is empty; its full name is the identifier, an underscore and
  the step's name.
\<close>

theorem identifier_scheme:
  assumes "p' = add_step a cs sk p" and "s = heap p' a" and "n = length (steps p')"
  shows "idx s = int n \<and> 1 \<le> n \<and> decimal_value (str_nat n) = n
    \<and> (\<forall>c \<in> set (str_nat n). c \<in> set ''0123456789'')
    \<and> (model s = None \<longrightarrow>
         get_step_id s = str_nat n \<and> get_full_step_name s = str_nat n @ ''_'' @ name s)
    \<and> (\<forall>m. model s = Some m \<longrightarrow>
         (class_name m \<noteq> [] \<longrightarrow> get_step_id s = class_name m @ ''_'' @ str_nat n)
         \<and> (class_name m = [] \<longrightarrow> get_step_id s = str_nat n)
         \<and> get_full_step_name s = get_step_id s @ ''_'' @ name s)"
proof -
  have i: "idx s = int n"
    using assms by (simp add: add_step_def set_step_id_def Let_def)
  have n: "1 \<le> n" using assms by (simp add: add_step_def Let_def)
  have plain: "model s = None \<longrightarrow>
         get_step_id s = str_nat n \<and> get_full_step_name s = str_nat n @ ''_'' @ name s"
    using i by (simp add: get_step_id_def get_full_step_name_def str_int_nat)
  have mod: "\<forall>m. model s = Some m \<longrightarrow>
         (class_name m \<noteq> [] \<longrightarrow> get_step_id s = class_name m @ ''_'' @ str_nat n)
         \<and> (class_name m = [] \<longrightarrow> get_step_id s = str_nat n)
         \<and> get_full_step_name s = get_step_id s @ ''_'' @ name s"
    using i by (simp add: get_step_id_def get_full_step_name_def get_model_name_def str_int_nat)
  from i n plain mod show ?thesis
    using decimal_value_str_nat str_nat_digits by blast
qed

text \<open>
  The specification's example: the plain step \<open>Preprocess\<close> registered third has the
  identifier \<open>3\<close> and the full name \<open>3_Preprocess\<close>; the model step of class \<open>Resnet\<close>
  registered second has the identifier \<open>Resnet_2\<close>.
\<close>

theorem identifier_scheme_witness:
  "get_step_id (heap (add_step 2 [] [] two_steps) 2) = ''3''
   \<and> get_full_step_name (heap (add_step 2 [] [] two_steps) 2) = ''3_Preprocess''
   \<and> get_step_id (heap (add_step 1 [] [] (add_step 0 [] [] (init_project 0 three_heap))) 1) = ''Resnet_2''
   \<and> get_full_step_name (heap (add_step 1 [] [] (add_step 0 [] [] (init_project 0 three_heap))) 1)
       = ''Resnet_2_Train''"
proof -
  have m3: "model (heap (add_step 2 [] [] two_steps) 2) = None"
    and n3: "name (heap (add_step 2 [] [] two_steps) 2) = ''Preprocess''"
    and l3: "length (steps (add_step 2 [] [] two_steps)) = 3"
    by (simp_all add: two_steps_def add_step_def init_project_def three_heap_def plain_step_def
        set_step_id_def Let_def)
  have m2: "model (heap (add_step 1 [] [] (add_step 0 [] [] (init_project 0 three_heap))) 1)
      = Some \<lparr>class_name = ''Resnet'', module_hash = ''bb22'', module_metric_calculator = None\<rparr>"
    and n2: "name (heap (add_step 1 [] [] (add_step 0 [] [] (init_project 0 three_heap))) 1) = ''Train''"
    and l2: "length (steps (add_step 1 [] [] (add_step 0 [] [] (init_project 0 three_heap)))) = 2"
    by (simp_all add: add_step_def init_project_def three_heap_def model_step_def
        set_step_id_def Let_def)
  from identifier_scheme [OF refl refl refl, of 2 "[]" "[]" two_steps] m3 n3 l3
  have a: "get_step_id (heap (add_step 2 [] [] two_steps) 2) = ''3''
   \<and> get_full_step_name (heap (add_step 2 [] [] two_steps) 2) = ''3_Preprocess''"
    by simp
  from identifier_scheme [OF refl refl refl, of 1 "[]" "[]" "add_step 0 [] [] (init_project 0 three_heap)"]
    m2 n2 l2
  have b: "get_step_id (heap (add_step 1 [] [] (add_step 0 [] [] (init_project 0 three_heap))) 1) = ''Resnet_2''
   \<and> get_full_step_name (heap (add_step 1 [] [] (add_step 0 [] [] (init_project 0 three_heap))) 1)
       = ''Resnet_2_Train''"
    by simp
  from a b show ?thesis by simp
qed

section \<open>The rerun decision\<close>

lemma check_checks_None_iff: "check_checks s cs = None \<longleftrightarrow> (\<forall>c \<in> set cs. is_positive (c s))"
  by (induction cs) (auto simp: Let_def)

lemma check_checks_Some_iff: "(\<exists>e. check_checks s cs = Some e) \<longleftrightarrow> (\<exists>c \<in> set cs. \<not> is_positive (c s))"
  using check_checks_None_iff [of s cs] by (cases "check_checks s cs") auto

lemma get_step_id_results [simp]: "get_step_id (s\<lparr>results := r\<rparr>) = get_step_id s"
  by (simp add: get_step_id_def get_model_name_def split: option.splits)

lemma get_hash_results [simp]: "get_hash (s\<lparr>results := r\<rparr>) = get_hash s"
  by (simp add: get_hash_def split: option.splits)

lemma get_full_step_name_results [simp]: "get_full_step_name (s\<lparr>results := r\<rparr>) = get_full_step_name s"
  by (simp add: get_full_step_name_def)

text \<open>
  C1, amended. \<open>check_if_must_be_run\<close> answers in three stages. With no stored entry
  under the step's identifier and name it answers true and leaves the project as it is.
  With a stored entry it loads the entry into the step; if a check is not positive on the
  step so loaded it answers true, whatever the fingerprint. With all checks positive,
  and provided the loaded results hold a value under \<open>hash\<close>, it answers true exactly
  when that value differs from the step's current fingerprint, and false when they are
  equal.
\<close>

theorem rerun_decision:
  assumes "s = heap p a" and "key = (get_step_id s, name s)"
  shows "(store p key = None \<longrightarrow> check_if_must_be_run a cs p = (Inr True, p))
    \<and> (\<forall>r. store p key = Some r \<longrightarrow>
         (let s' = s\<lparr>results := r\<rparr>; p' = p\<lparr>heap := (heap p)(a := s')\<rparr> in
            ((\<exists>c \<in> set cs. \<not> is_positive (c s')) \<longrightarrow>
               check_if_must_be_run a cs p = (Inr True, p'))
          \<and> ((\<forall>c \<in> set cs. is_positive (c s')) \<longrightarrow>
               (\<forall>h. r ''hash'' = Some h \<longrightarrow>
                  fst (check_if_must_be_run a cs p) = Inr (VStr (get_hash s) \<noteq> h)
                  \<and> heap (snd (check_if_must_be_run a cs p)) = heap p'
                  \<and> store (snd (check_if_must_be_run a cs p)) = store p))))"
proof -
  have miss: "store p key = None \<longrightarrow> check_if_must_be_run a cs p = (Inr True, p)"
    using assms by (simp add: check_if_must_be_run_def was_run_def)
  have hit: "\<And>r. store p key = Some r \<Longrightarrow>
         (let s' = s\<lparr>results := r\<rparr>; p' = p\<lparr>heap := (heap p)(a := s')\<rparr> in
            ((\<exists>c \<in> set cs. \<not> is_positive (c s')) \<longrightarrow>
               check_if_must_be_run a cs p = (Inr True, p'))
          \<and> ((\<forall>c \<in> set cs. is_positive (c s')) \<longrightarrow>
               (\<forall>h. r ''hash'' = Some h \<longrightarrow>
                  fst (check_if_must_be_run a cs p) = Inr (VStr (get_hash s) \<noteq> h)
                  \<and> heap (snd (check_if_must_be_run a cs p)) = heap p'
                  \<and> store (snd (check_if_must_be_run a cs p)) = store p)))"
  proof -
    fix r assume st: "store p key = Some r"
    let ?s' = "s\<lparr>results := r\<rparr>"
    let ?p' = "p\<lparr>heap := (heap p)(a := ?s')\<rparr>"
    have run: "was_run a p" using st assms by (simp add: was_run_def)
    have load: "load_results a p = Inr ?p'"
      using st assms by (simp add: load_results_def Let_def)
    have fail: "(\<exists>c \<in> set cs. \<not> is_positive (c ?s')) \<longrightarrow>
               check_if_must_be_run a cs p = (Inr True, ?p')"
    proof
      assume "\<exists>c \<in> set cs. \<not> is_positive (c ?s')"
      then obtain e where "check_checks ?s' cs = Some e"
        using check_checks_Some_iff by blast
      then show "check_if_must_be_run a cs p = (Inr True, ?p')"
        using run load by (simp add: check_if_must_be_run_def)
    qed
    have pass: "(\<forall>c \<in> set cs. is_positive (c ?s')) \<longrightarrow>
               (\<forall>h. r ''hash'' = Some h \<longrightarrow>
                  fst (check_if_must_be_run a cs p) = Inr (VStr (get_hash s) \<noteq> h)
                  \<and> heap (snd (check_if_must_be_run a cs p)) = heap ?p'
                  \<and> store (snd (check_if_must_be_run a cs p)) = store p)"
    proof (intro impI allI)
      fix h assume "\<forall>c \<in> set cs. is_positive (c ?s')" and h: "r ''hash'' = Some h"
      then have "check_checks ?s' cs = None" using check_checks_None_iff by blast
      then show "fst (check_if_must_be_run a cs p) = Inr (VStr (get_hash s) \<noteq> h)
                  \<and> heap (snd (check_if_must_be_run a cs p)) = heap ?p'
                  \<and> store (snd (check_if_must_be_run a cs p)) = store p"
        using run load h by (simp add: check_if_must_be_run_def get_results_def Let_def)
    qed
    from fail pass show "(let s' = s\<lparr>results := r\<rparr>; p' = p\<lparr>heap := (heap p)(a := s')\<rparr> in
            ((\<exists>c \<in> set cs. \<not> is_positive (c s')) \<longrightarrow>
               check_if_must_be_run a cs p = (Inr True, p'))
          \<and> ((\<forall>c \<in> set cs. is_positive (c s')) \<longrightarrow>
               (\<forall>h. r ''hash'' = Some h \<longrightarrow>
                  fst (check_if_must_be_run a cs p) = Inr (VStr (get_hash s) \<noteq> h)
                  \<and> heap (snd (check_if_must_be_run a cs p)) = heap p'
                  \<and> store (snd (check_if_must_be_run a cs p)) = store p)))"
      by (simp only: Let_def)
  qed
  from miss hit show ?thesis by blast
qed

lemma one_step_0:
  "idx (heap one_step 0) = 1" "name (heap one_step 0) = ''Load''" "model (heap one_step 0) = None"
  "get_step_id (heap one_step 0) = ''1''" "get_hash (heap one_step 0) = ''aa11''"
  "store one_step = Map.empty" "results (heap one_step 0) = Map.empty"
  by (simp_all add: one_step_def add_step_def init_project_def three_heap_def plain_step_def
      set_step_id_def get_step_id_def get_hash_def Let_def)

lemma stored_simps [simp]:
  "heap (stored k r p) = heap p" "store (stored k r p) = (store p)(k \<mapsto> r)"
  by (simp_all add: stored_def)

text \<open>
  The four situations at a concrete step: nothing stored; a stored entry that fails the
  check although its hash matches; a stored entry that passes with a matching hash; one
  that passes with another hash.
\<close>

theorem rerun_decision_witness:
  "check_if_must_be_run 0 [has_key ''rows''] one_step = (Inr True, one_step)
   \<and> fst (check_if_must_be_run 0 [has_key ''rows'']
        (stored (''1'', ''Load'') [''hash'' \<mapsto> VStr ''aa11''] one_step)) = Inr True
   \<and> fst (check_if_must_be_run 0 [has_key ''rows'']
        (stored (''1'', ''Load'') [''hash'' \<mapsto> VStr ''aa11'', ''rows'' \<mapsto> VInt 10] one_step)) = Inr False
   \<and> fst (check_if_must_be_run 0 [has_key ''rows'']
        (stored (''1'', ''Load'') [''hash'' \<mapsto> VStr ''0000'', ''rows'' \<mapsto> VInt 10] one_step)) = Inr True"
proof -
  have a: "check_if_must_be_run 0 [has_key ''rows''] one_step = (Inr True, one_step)"
    using rerun_decision [OF refl refl, of one_step 0 "[has_key ''rows'']"]
    by (simp add: one_step_0)
  have b: "fst (check_if_must_be_run 0 [has_key ''rows'']
        (stored (''1'', ''Load'') [''hash'' \<mapsto> VStr ''aa11''] one_step)) = Inr True"
    using rerun_decision [OF refl refl,
        of "stored (''1'', ''Load'') [''hash'' \<mapsto> VStr ''aa11''] one_step" 0 "[has_key ''rows'']"]
    by (simp add: one_step_0 has_key_def Let_def)
  have c: "fst (check_if_must_be_run 0 [has_key ''rows'']
        (stored (''1'', ''Load'') [''hash'' \<mapsto> VStr ''aa11'', ''rows'' \<mapsto> VInt 10] one_step)) = Inr False"
    using rerun_decision [OF refl refl,
        of "stored (''1'', ''Load'') [''hash'' \<mapsto> VStr ''aa11'', ''rows'' \<mapsto> VInt 10] one_step" 0
           "[has_key ''rows'']"]
    by (simp add: one_step_0 has_key_def Let_def)
  have d: "fst (check_if_must_be_run 0 [has_key ''rows'']
        (stored (''1'', ''Load'') [''hash'' \<mapsto> VStr ''0000'', ''rows'' \<mapsto> VInt 10] one_step)) = Inr True"
    using rerun_decision [OF refl refl,
        of "stored (''1'', ''Load'') [''hash'' \<mapsto> VStr ''0000'', ''rows'' \<mapsto> VInt 10] one_step" 0
           "[has_key ''rows'']"]
    by (simp add: one_step_0 has_key_def Let_def)
  from a b c d show ?thesis by simp
qed

text \<open>
  C1, as the claim states it, fails: it gives the third stage an answer, true or false,
  for every stored entry on which the checks pass. For a stored entry that passes the
  check and has no \<open>hash\<close> key the decision answers neither: reading \<open>hash\<close> from the
  loaded results raises \<open>KeyError\<close>.
\<close>

theorem rerun_decision_counterexample:
  "store (stored (''1'', ''Load'') [''rows'' \<mapsto> VInt 10] one_step)
      (get_step_id (heap one_step 0), name (heap one_step 0)) = Some [''rows'' \<mapsto> VInt 10]
   \<and> is_positive (has_key ''rows'' ((heap one_step 0)\<lparr>results := [''rows'' \<mapsto> VInt 10]\<rparr>))
   \<and> fst (check_if_must_be_run 0 [has_key ''rows'']
        (stored (''1'', ''Load'') [''rows'' \<mapsto> VInt 10] one_step)) = Inl (KeyError ''hash'')
   \<and> fst (check_if_must_be_run 0 [has_key ''rows'']
        (stored (''1'', ''Load'') [''rows'' \<mapsto> VInt 10] one_step)) \<noteq> Inr True
   \<and> fst (check_if_must_be_run 0 [has_key ''rows'']
        (stored (''1'', ''Load'') [''rows'' \<mapsto> VInt 10] one_step)) \<noteq> Inr False"
  by (simp add: one_step_0 has_key_def check_if_must_be_run_def was_run_def load_results_def
      get_results_def Let_def)

section \<open>Executing a step\<close>

lemma call_returned:
  assumes "do (heap p a) (step_states p) (results (heap p a)) = Returned r"
  shows "fst (call a p) = None"
    and "results (heap (snd (call a p)) a) = r"
    and "store (snd (call a p)) = (store p)((get_step_id (heap p a), name (heap p a)) \<mapsto> r)"
  using assms
  by (simp_all add: call_def Let_def get_step_id_def get_model_name_def split: option.splits)

lemma call_raised:
  assumes "do (heap p a) (step_states p) (results (heap p a)) = Raised msg r"
  shows "fst (call a p) = Some (DoException msg)"
    and "results (heap (snd (call a p)) a) = r"
    and "store (snd (call a p)) = store p"
  using assms
  by (simp_all add: call_def Let_def split: option.splits)

text \<open>
  C2, as the claim states it, fails: a step whose \<open>do\<close> adds the result \<open>partial\<close> and
  then raises leaves \<open>call\<close> with the exception, the result sits in the step, and the
  store has no entry for the step.
\<close>

theorem execute_persists_counterexample:
  "fst (call 0 broken) = Some (DoException ''boom'')
   \<and> results (heap (snd (call 0 broken)) 0) ''partial'' = Some (VInt 1)
   \<and> get_step_id (heap (snd (call 0 broken)) 0) = ''1''
   \<and> name (heap (snd (call 0 broken)) 0) = ''Broken''
   \<and> store (snd (call 0 broken)) (''1'', ''Broken'') = None"
  by (simp add: call_def broken_def add_step_def init_project_def plain_step_def do_raise_def
      set_step_id_def get_step_id_def Let_def)

text \<open>
  C2, amended. When \<open>do\<close> returns, \<open>call\<close> returns normally and the store holds the
  step's results under the step's identifier and name, every other entry being as
  before. When \<open>do\<close> raises, \<open>call\<close> raises the same error, the partially populated
  results stay in the step, and the store is unchanged.
\<close>

theorem execute_persists_on_return:
  assumes "s = heap p a" and "key = (get_step_id s, name s)"
  shows "(\<forall>r. do s (step_states p) (results s) = Returned r \<longrightarrow>
            fst (call a p) = None
          \<and> results (heap (snd (call a p)) a) = r
          \<and> store (snd (call a p)) key = Some r
          \<and> (\<forall>k. k \<noteq> key \<longrightarrow> store (snd (call a p)) k = store p k))
    \<and> (\<forall>msg r. do s (step_states p) (results s) = Raised msg r \<longrightarrow>
            fst (call a p) = Some (DoException msg)
          \<and> results (heap (snd (call a p)) a) = r
          \<and> store (snd (call a p)) = store p)"
  using assms call_returned [of p a] call_raised [of p a] by simp

text \<open>
  A step whose \<open>do\<close> returns has its results saved; the step of the counterexample
  leaves the store empty.
\<close>

theorem execute_persists_on_return_witness:
  "fst (call 0 one_step) = None
   \<and> store (snd (call 0 one_step)) (''1'', ''Load'') = Some [''rows'' \<mapsto> VInt 10]
   \<and> fst (call 0 broken) = Some (DoException ''boom'')
   \<and> store (snd (call 0 broken)) = Map.empty"
proof -
  have ok: "do (heap one_step 0) (step_states one_step) (results (heap one_step 0))
      = Returned [''rows'' \<mapsto> VInt 10]"
    by (simp add: one_step_def add_step_def init_project_def three_heap_def plain_step_def
        set_step_id_def do_add_def Let_def)
  have bad: "do (heap broken 0) (step_states broken) (results (heap broken 0))
      = Raised ''boom'' [''partial'' \<mapsto> VInt 1]"
    by (simp add: broken_def add_step_def init_project_def plain_step_def
        set_step_id_def do_raise_def Let_def)
  have e: "store broken = Map.empty"
    by (simp add: broken_def add_step_def init_project_def Let_def)
  from execute_persists_on_return [OF refl refl, of one_step 0] ok
  have a: "fst (call 0 one_step) = None
   \<and> store (snd (call 0 one_step)) (''1'', ''Load'') = Some [''rows'' \<mapsto> VInt 10]"
    by (simp add: one_step_0)
  from execute_persists_on_return [OF refl refl, of broken 0] bad e
  have b: "fst (call 0 broken) = Some (DoException ''boom'')
   \<and> store (snd (call 0 broken)) = Map.empty"
    by simp
  from a b show ?thesis by simp
qed

section \<open>The loop of \<open>run_all\<close>\<close>

lemma run_steps_append:
  "run_steps f (xs @ ys) st p =
     (case run_steps f xs st p of
        (Some e, st', p') \<Rightarrow> (Some e, st', p')
      | (None, st', p') \<Rightarrow> run_steps f ys st' p')"
  by (induction xs arbitrary: st p) (auto split: prod.splits option.splits)

lemma decision_missing_hash:
  assumes "store p (get_step_id (heap p a), name (heap p a)) = Some res"
    and "res ''hash'' = None"
    and "\<forall>c \<in> set cs. is_positive (c ((heap p a)\<lparr>results := res\<rparr>))"
  shows "check_if_must_be_run a cs p
    = (Inl (KeyError ''hash''), p\<lparr>heap := (heap p)(a := (heap p a)\<lparr>results := res\<rparr>)\<rparr>)"
proof -
  have "check_checks ((heap p a)\<lparr>results := res\<rparr>) cs = None"
    using assms(3) check_checks_None_iff by blast
  then show ?thesis
    using assms(1,2)
    by (simp add: check_if_must_be_run_def was_run_def load_results_def get_results_def Let_def)
qed

text \<open>
  C10. A step with a stored entry on which its checks pass, but with no \<open>hash\<close> key in
  the entry, makes \<open>check_if_must_be_run\<close> raise \<open>KeyError\<close>. The turn of the loop ends
  with that error and the status table it started with, with either value of
  \<open>force_rerun\<close>; the loop stops there, so no later step gets a status; and \<open>run_all\<close>
  returns the error with nothing printed after the point where the loop reached the
  step, so without the report.
\<close>

theorem missing_hash_aborts:
  assumes "s = heap p (step r)"
    and "store p (get_step_id s, name s) = Some res"
    and "res ''hash'' = None"
    and "\<forall>c \<in> set (checks r). is_positive (c (s\<lparr>results := res\<rparr>))"
    and "p' = p\<lparr>compiled_skipped := skipped_metrics r, current_step := Some (step r),
                 heap := (heap p)(step r := s\<lparr>results := res\<rparr>)\<rparr>"
  shows "fst (check_if_must_be_run (step r) (checks r) p) = Inl (KeyError ''hash'')
    \<and> run_step force r st p = (Some (KeyError ''hash''), st, p')
    \<and> run_steps force (r # rs) st p = (Some (KeyError ''hash''), st, p')
    \<and> (\<forall>p0 before. steps p0 = before @ r # rs \<and> run_steps force before [] p0 = (None, st, p) \<longrightarrow>
          run_steps force (steps p0) [] p0 = (Some (KeyError ''hash''), st, p')
        \<and> run_all force p0 = (Some (KeyError ''hash''), p')
        \<and> out (snd (run_all force p0)) = out p)"
proof -
  have d: "fst (check_if_must_be_run (step r) (checks r) p) = Inl (KeyError ''hash'')"
    using decision_missing_hash [of p "step r" res "checks r"] assms(1-4) by simp
  let ?p2 = "p\<lparr>compiled_skipped := skipped_metrics r, current_step := Some (step r)\<rparr>"
  have "check_if_must_be_run (step r) (checks r) ?p2
      = (Inl (KeyError ''hash''), ?p2\<lparr>heap := (heap ?p2)(step r := (heap ?p2 (step r))\<lparr>results := res\<rparr>)\<rparr>)"
    by (rule decision_missing_hash) (use assms(1-4) in simp_all)
  then have one: "run_step force r st p = (Some (KeyError ''hash''), st, p')"
    using assms(1,5) by (simp add: run_step_def enter_step_def Let_def)
  then have loop: "run_steps force (r # rs) st p = (Some (KeyError ''hash''), st, p')"
    by simp
  have all: "\<forall>p0 before. steps p0 = before @ r # rs \<and> run_steps force before [] p0 = (None, st, p) \<longrightarrow>
          run_steps force (steps p0) [] p0 = (Some (KeyError ''hash''), st, p')
        \<and> run_all force p0 = (Some (KeyError ''hash''), p')
        \<and> out (snd (run_all force p0)) = out p"
  proof (intro allI impI)
    fix p0 before
    assume h: "steps p0 = before @ r # rs \<and> run_steps force before [] p0 = (None, st, p)"
    then have l: "run_steps force (steps p0) [] p0 = (Some (KeyError ''hash''), st, p')"
      using loop by (simp add: run_steps_append del: run_steps.simps)
    then have "run_all force p0 = (Some (KeyError ''hash''), p')"
      by (simp add: run_all_def)
    with l show "run_steps force (steps p0) [] p0 = (Some (KeyError ''hash''), st, p')
        \<and> run_all force p0 = (Some (KeyError ''hash''), p')
        \<and> out (snd (run_all force p0)) = out p"
      using assms(5) by simp
  qed
  from d one loop all show ?thesis by blast
qed

text \<open>
  One registered step whose stored results hold \<open>rows\<close> but no \<open>hash\<close>: \<open>run_all\<close>
  ends with \<open>KeyError\<close> and prints nothing, forced or not.
\<close>

theorem missing_hash_aborts_witness:
  "fst (run_all False (stored (''1'', ''Load'') [''rows'' \<mapsto> VInt 10] one_step)) = Some (KeyError ''hash'')
   \<and> out (snd (run_all False (stored (''1'', ''Load'') [''rows'' \<mapsto> VInt 10] one_step))) = []
   \<and> fst (run_all True (stored (''1'', ''Load'') [''rows'' \<mapsto> VInt 10] one_step)) = Some (KeyError ''hash'')
   \<and> out (snd (run_all True (stored (''1'', ''Load'') [''rows'' \<mapsto> VInt 10] one_step))) = []"
proof -
  let ?p = "stored (''1'', ''Load'') [''rows'' \<mapsto> VInt 10] one_step"
  let ?r = "\<lparr>step = 0, checks = [has_key ''rows''], skipped_metrics = []\<rparr>"
  have st: "steps ?p = [] @ ?r # []"
    by (simp add: stored_def one_step_def add_step_def init_project_def Let_def)
  have o: "out ?p = []"
    by (simp add: stored_def one_step_def add_step_def init_project_def Let_def)
  have h: "store ?p (get_step_id (heap ?p (step ?r)), name (heap ?p (step ?r)))
      = Some [''rows'' \<mapsto> VInt 10]"
    by (simp add: one_step_0)
  have c: "\<forall>c \<in> set (checks ?r). is_positive (c ((heap ?p (step ?r))\<lparr>results := [''rows'' \<mapsto> VInt 10]\<rparr>))"
    by (simp add: has_key_def)
  have n: "[''rows'' \<mapsto> VInt 10] ''hash'' = None" by simp
  have "fst (run_all f ?p) = Some (KeyError ''hash'') \<and> out (snd (run_all f ?p)) = []" for f
  proof -
    have pre: "steps ?p = [] @ ?r # [] \<and> run_steps f [] [] ?p = (None, [], ?p)"
      using st by simp
    have "fst (run_all f ?p) = Some (KeyError ''hash'') \<and> out (snd (run_all f ?p)) = out ?p"
      using missing_hash_aborts [OF refl h n c refl, of f "[]" "[]", THEN conjunct2,
          THEN conjunct2, THEN conjunct2, THEN spec, THEN spec, THEN mp, OF pre]
      by simp
    with o show ?thesis by simp
  qed
  then show ?thesis by blast
qed

section \<open>Replacing a step\<close>

lemma replace_step_at:
  assumes "py_index (length (steps p)) k = Some j"
    and "i = (if k = - 1 then int (length (steps p)) else k)"
    and "p' = snd (replace_step a k p)"
  shows "fst (replace_step a k p) = None"
    and "steps p' = (steps p)[j := (steps p ! j)\<lparr>step := a\<rparr>]"
    and "heap p' = (heap p)(a := (heap p a)\<lparr>idx := i\<rparr>)"
    and "j < length (steps p)"
proof -
  show "j < length (steps p)"
    using assms(1) by (auto simp: py_index_def split: if_splits)
  show "fst (replace_step a k p) = None"
    using assms(1) by (simp add: replace_step_def Let_def)
  show "steps p' = (steps p)[j := (steps p ! j)\<lparr>step := a\<rparr>]"
    using assms(1,3) by (simp add: replace_step_def Let_def)
  show "heap p' = (heap p)(a := (heap p a)\<lparr>idx := i\<rparr>)"
    using assms by (simp add: replace_step_def set_step_id_def Let_def)
qed

text \<open>
  C9. With the default index \<open>-1\<close> and a registry of \<open>n > 0\<close> records, \<open>replace_step\<close>
  makes the last record refer to the new step, keeps the registry at \<open>n\<close> records and
  gives the new step the index \<open>n\<close>. With another index \<open>k\<close> that Python accepts for a
  list of \<open>n\<close> elements (\<open>0 \<le> k < n\<close>, or \<open>-n \<le> k < -1\<close> counting from the end) it makes
  the record at that position refer to the new step and gives the step the index \<open>k\<close>.
  In both cases the checks and skipped metrics of the record, every other record and
  every other step object are unchanged.
\<close>

theorem replace_step_repoints:
  assumes "n = length (steps p)"
    and "k = - 1 \<and> 0 < n \<and> j = n - 1 \<and> i = int n
       \<or> 0 \<le> k \<and> k < int n \<and> j = nat k \<and> i = k
       \<or> - int n \<le> k \<and> k < - 1 \<and> j = nat (int n + k) \<and> i = k"
    and "p' = snd (replace_step a k p)"
  shows "fst (replace_step a k p) = None
    \<and> length (steps p') = n
    \<and> j < n
    \<and> step (steps p' ! j) = a
    \<and> checks (steps p' ! j) = checks (steps p ! j)
    \<and> skipped_metrics (steps p' ! j) = skipped_metrics (steps p ! j)
    \<and> (\<forall>m < n. m \<noteq> j \<longrightarrow> steps p' ! m = steps p ! m)
    \<and> idx (heap p' a) = i
    \<and> (\<forall>b. b \<noteq> a \<longrightarrow> heap p' b = heap p b)"
proof -
  have px: "py_index (length (steps p)) k = Some j"
  proof -
    from assms(2) consider
      "k = - 1 \<and> 0 < n \<and> j = n - 1" | "0 \<le> k \<and> k < int n \<and> j = nat k"
      | "- int n \<le> k \<and> k < - 1 \<and> j = nat (int n + k)" by blast
    then show ?thesis
    proof cases
      case 1
      then have "\<not> (0 \<le> k \<and> k < int n)" and "- int n \<le> k \<and> k < 0"
        and "nat (int n + k) = j" by linarith+
      then show ?thesis unfolding py_index_def assms(1) [symmetric] by simp
    next
      case 2
      then show ?thesis using assms(1) by (simp add: py_index_def)
    next
      case 3
      then show ?thesis using assms(1) by (simp add: py_index_def)
    qed
  qed
  have ix: "i = (if k = - 1 then int (length (steps p)) else k)"
    using assms(1,2) by auto
  note r = replace_step_at [OF px ix assms(3)]
  have j: "j < n" using r(4) assms(1) by simp
  from r(1) r(2) r(3) j assms(1) show ?thesis by simp
qed

text \<open>
  On the registry of two steps: replacing with the default index makes the second
  record refer to the step at address 2 with index 2; replacing at index 0 makes the
  first record refer to it with index 0; replacing at index \<open>-2\<close> makes the first
  record refer to it with index \<open>-2\<close>.
\<close>

theorem replace_step_repoints_witness:
  "length (steps two_steps) = 2
   \<and> length (steps (snd (replace_step 2 (- 1) two_steps))) = 2
   \<and> step (steps (snd (replace_step 2 (- 1) two_steps)) ! 1) = 2
   \<and> idx (heap (snd (replace_step 2 (- 1) two_steps)) 2) = 2
   \<and> step (steps (snd (replace_step 2 0 two_steps)) ! 0) = 2
   \<and> idx (heap (snd (replace_step 2 0 two_steps)) 2) = 0
   \<and> step (steps (snd (replace_step 2 (- 2) two_steps)) ! 0) = 2
   \<and> idx (heap (snd (replace_step 2 (- 2) two_steps)) 2) = - 2"
proof -
  have l: "2 = length (steps two_steps)"
    by (simp add: two_steps_def add_step_def init_project_def Let_def)
  have a: "length (steps (snd (replace_step 2 (- 1) two_steps))) = 2
   \<and> step (steps (snd (replace_step 2 (- 1) two_steps)) ! 1) = 2
   \<and> idx (heap (snd (replace_step 2 (- 1) two_steps)) 2) = 2"
    using replace_step_repoints [OF l _ refl, of "- 1" 1 2 2] by simp
  have b: "step (steps (snd (replace_step 2 0 two_steps)) ! 0) = 2
   \<and> idx (heap (snd (replace_step 2 0 two_steps)) 2) = 0"
    using replace_step_repoints [OF l _ refl, of 0 0 0 2] by simp
  have c: "step (steps (snd (replace_step 2 (- 2) two_steps)) ! 0) = 2
   \<and> idx (heap (snd (replace_step 2 (- 2) two_steps)) 2) = - 2"
    using replace_step_repoints [OF l _ refl, of "- 2" 0 "- 2" 2] by simp
  from l a b c show ?thesis by simp
qed

section \<open>One turn of the loop\<close>

lemma get_step_id_alt:
  "get_step_id s =
     (if get_model_name s \<noteq> [] then get_model_name s @ ''_'' @ str_int (idx s) else str_int (idx s))"
  by (simp add: get_step_id_def get_model_name_def split: option.splits)

lemma static_eqD:
  assumes "static s = static t"
  shows "idx s = idx t" and "name s = name t" and "get_model_name s = get_model_name t"
    and "get_hash s = get_hash t" and "do s = do t" and "get_step_id s = get_step_id t"
    and "get_full_step_name s = get_full_step_name t"
    and "get_name_with_id s = get_name_with_id t"
  using assms
  by (simp_all add: static_def get_step_id_alt get_full_step_name_def get_name_with_id_def)

lemma get_model_name_results [simp]: "get_model_name (s\<lparr>results := r\<rparr>) = get_model_name s"
  by (simp add: get_model_name_def)

lemma static_results [simp]: "static (s\<lparr>results := r\<rparr>) = static s"
  by (simp add: static_def)

lemma static_add_result [simp]: "static (add_result k v s) = static s"
  by (simp add: add_result_def)

lemma static_heap_upd:
  "static s' = static (h a) \<Longrightarrow> static ((h(a := s')) b) = static (h b)"
  by simp

lemma load_results_static:
  "load_results a p = Inr p' \<Longrightarrow> static (heap p' b) = static (heap p b)"
  by (auto simp: load_results_def Let_def split: option.splits)

lemma load_results_frame:
  assumes "load_results a p = Inr p'"
  shows "store p' = store p" and "out p' = out p" and "step_states p' = step_states p"
    and "steps p' = steps p" and "b \<noteq> a \<Longrightarrow> heap p' b = heap p b"
  using assms by (auto simp: load_results_def Let_def split: option.splits)

lemma decision_static:
  "check_if_must_be_run a cs p = (d, p') \<Longrightarrow> static (heap p' b) = static (heap p b)"
  by (auto simp: check_if_must_be_run_def Let_def load_results_static
      split: if_splits sum.splits option.splits)

lemma decision_frame:
  assumes "check_if_must_be_run a cs p = (d, p')"
  shows "store p' = store p" and "step_states p' = step_states p" and "steps p' = steps p"
    and "b \<noteq> a \<Longrightarrow> heap p' b = heap p b"
  using assms
  by (auto simp: check_if_must_be_run_def Let_def load_results_frame
      split: if_splits sum.splits option.splits)

lemma stamp_hash_static [simp]: "static (heap (stamp_hash a p) b) = static (heap p b)"
  by (simp add: stamp_hash_def)

lemma stamp_hash_frame [simp]:
  "store (stamp_hash a p) = store p" "out (stamp_hash a p) = out p"
  "step_states (stamp_hash a p) = step_states p" "steps (stamp_hash a p) = steps p"
  "b \<noteq> a \<Longrightarrow> heap (stamp_hash a p) b = heap p b"
  by (simp_all add: stamp_hash_def)

lemma stamp_hash_results:
  "results (heap (stamp_hash a p) a) = (results (heap p a))(''hash'' \<mapsto> VStr (get_hash (heap p a)))"
  by (simp add: stamp_hash_def add_result_def)

lemma call_static: "static (heap (snd (call a p)) b) = static (heap p b)"
  by (simp add: call_def Let_def static_def get_model_name_def get_hash_def
      split: option.splits do_outcome.splits)

lemma call_frame:
  "out (snd (call a p)) = out p" "step_states (snd (call a p)) = step_states p"
  "steps (snd (call a p)) = steps p" "b \<noteq> a \<Longrightarrow> heap (snd (call a p)) b = heap p b"
  by (simp_all add: call_def Let_def split: option.splits do_outcome.splits)

lemma fill_step_states_frame [simp]:
  "heap (fill_step_states a p) = heap p" "store (fill_step_states a p) = store p"
  "out (fill_step_states a p) = out p" "steps (fill_step_states a p) = steps p"
  by (simp_all add: fill_step_states_def Let_def)

lemma fill_step_states_entry:
  "\<exists>inner. step_states (fill_step_states a p) (get_model_name (heap p a)) = Some inner
     \<and> inner (get_name_with_id (heap p a)) = Some (get_results (heap p a))"
  by (simp add: fill_step_states_def Let_def)

lemma enter_step_frame [simp]:
  "heap (enter_step r p) = heap p" "store (enter_step r p) = store p"
  "out (enter_step r p) = out p" "step_states (enter_step r p) = step_states p"
  "steps (enter_step r p) = steps p"
  by (simp_all add: enter_step_def)

text \<open>The three ways a turn of the loop can go.\<close>

lemma run_step_raise:
  "check_if_must_be_run (step r) (checks r) (enter_step r p) = (Inl e, p3) \<Longrightarrow>
   run_step f r st p = (Some e, st, p3)"
  by (simp add: run_step_def Let_def)

lemma run_step_skip:
  "check_if_must_be_run (step r) (checks r) (enter_step r p) = (Inr False, p3) \<Longrightarrow>
   run_step False r st p = (None, skip_step (step r) st p3)"
  by (simp add: run_step_def Let_def split: prod.splits)

lemma run_step_execute:
  "check_if_must_be_run (step r) (checks r) (enter_step r p) = (Inr must, p3) \<Longrightarrow> must \<or> f \<Longrightarrow>
   run_step f r st p = (None, execute_step (step r) (checks r) st (stamp_hash (step r) p3))"
  by (auto simp: run_step_def Let_def split: prod.splits)


lemma execute_step_failed:
  assumes "call a p = (raised, p4)"
    and "raised = Some e \<or> raised = None \<and> check_checks (heap p4 a) cs = Some e"
  shows "execute_step a cs st p =
    (AList.update (get_full_step_name (heap p4 a))
       \<lparr>status = ''Failed'', status_results = get_results (heap p4 a)\<rparr> st,
     fill_step_states a (p4\<lparr>out := out p4 @ [StepFailedMsg (get_full_step_name (heap p4 a)) e]\<rparr>))"
  using assms by (auto simp: execute_step_def Let_def)

lemma execute_step_completed:
  assumes "call a p = (None, p4)" and "check_checks (heap p4 a) cs = None"
  shows "execute_step a cs st p =
    (AList.update (get_full_step_name (heap p4 a))
       \<lparr>status = ''Completed'', status_results = get_results (heap p4 a)\<rparr> st,
     fill_step_states a p4)"
  using assms by (simp add: execute_step_def Let_def)

lemma execute_step_cases:
  obtains (completed) p4 where "call a p = (None, p4)" "check_checks (heap p4 a) cs = None"
      "execute_step a cs st p =
        (AList.update (get_full_step_name (heap p4 a))
           \<lparr>status = ''Completed'', status_results = get_results (heap p4 a)\<rparr> st,
         fill_step_states a p4)"
  | (failed) raised p4 e where "call a p = (raised, p4)"
      "raised = Some e \<or> raised = None \<and> check_checks (heap p4 a) cs = Some e"
      "execute_step a cs st p =
        (AList.update (get_full_step_name (heap p4 a))
           \<lparr>status = ''Failed'', status_results = get_results (heap p4 a)\<rparr> st,
         fill_step_states a (p4\<lparr>out := out p4 @ [StepFailedMsg (get_full_step_name (heap p4 a)) e]\<rparr>))"
proof -
  obtain raised p4 where c: "call a p = (raised, p4)" by (cases "call a p")
  show thesis
  proof (cases raised)
    case (Some e)
    with c show thesis using failed execute_step_failed by blast
  next
    case None
    show thesis
    proof (cases "check_checks (heap p4 a) cs")
      case (Some e)
      with c None show thesis using failed execute_step_failed by blast
    next
      case n: None
      with c None show thesis using completed execute_step_completed by blast
    qed
  qed
qed





text \<open>
  The shape of a turn that ends normally: some status was written under the step's full
  name with the step's results, and \<open>fill_step_states\<close> ran last.
\<close>

lemma run_step_shape:
  assumes "run_step f r st p = (None, st', p')"
  shows "\<exists>q t. p' = fill_step_states (step r) q
    \<and> st' = AList.update (get_full_step_name (heap q (step r)))
              \<lparr>status = t, status_results = get_results (heap q (step r))\<rparr> st
    \<and> t \<in> {''Skipped'', ''Completed'', ''Failed''}
    \<and> (f \<longrightarrow> t \<noteq> ''Skipped'')
    \<and> (\<forall>b. static (heap q b) = static (heap p b))
    \<and> (t = ''Skipped'' \<longrightarrow> store q = store p)"
proof -
  let ?a = "step r"
  obtain d p3 where d: "check_if_must_be_run ?a (checks r) (enter_step r p) = (d, p3)"
    by (cases "check_if_must_be_run ?a (checks r) (enter_step r p)")
  have s3: "\<And>b. static (heap p3 b) = static (heap p b)"
    using decision_static [OF d] by simp
  have st3: "store p3 = store p" using decision_frame(1) [OF d] by simp
  show ?thesis
  proof (cases d)
    case (Inl e)
    with d assms show ?thesis using run_step_raise by fastforce
  next
    case (Inr must)
    show ?thesis
    proof (cases "must \<or> f")
      case False
      with d Inr have "run_step f r st p = (None, skip_step ?a st p3)"
        using run_step_skip by simp
      with assms have "st' = AList.update (get_full_step_name (heap p3 ?a))
              \<lparr>status = ''Skipped'', status_results = get_results (heap p3 ?a)\<rparr> st"
        and "p' = fill_step_states ?a p3"
        by (simp_all add: skip_step_def)
      with False s3 st3 show ?thesis by blast
    next
      case True
      with d Inr have e: "run_step f r st p
          = (None, execute_step ?a (checks r) st (stamp_hash ?a p3))"
        using run_step_execute by blast
      show ?thesis
      proof (cases rule: execute_step_cases [of ?a "stamp_hash ?a p3" "checks r" st])
        case (completed p4)
        have "\<And>b. static (heap p4 b) = static (heap p b)"
          using call_static [of ?a "stamp_hash ?a p3"] completed(1) s3 by simp
        with completed(3) e assms show ?thesis by auto
      next
        case (failed raised p4 e')
        let ?q = "p4\<lparr>out := out p4 @ [StepFailedMsg (get_full_step_name (heap p4 ?a)) e']\<rparr>"
        have "\<And>b. static (heap ?q b) = static (heap p b)"
          using call_static [of ?a "stamp_hash ?a p3"] failed(1) s3 by simp
        moreover have "p' = fill_step_states ?a ?q"
          and "st' = AList.update (get_full_step_name (heap ?q ?a))
              \<lparr>status = ''Failed'', status_results = get_results (heap ?q ?a)\<rparr> st"
          using failed(3) e assms by simp_all
        ultimately show ?thesis by blast
      qed
    qed
  qed
qed

lemma run_step_static:
  assumes "run_step f r st p = (x, st', p')"
  shows "static (heap p' b) = static (heap p b)"
proof (cases x)
  case None
  with assms run_step_shape [of f r st p st' p'] show ?thesis by auto
next
  case (Some e)
  obtain d p3 where d: "check_if_must_be_run (step r) (checks r) (enter_step r p) = (d, p3)"
    by (cases "check_if_must_be_run (step r) (checks r) (enter_step r p)")
  with assms Some have "p' = p3"
    by (auto simp: run_step_def Let_def split: sum.splits if_splits prod.splits)
  with decision_static [OF d] show ?thesis by simp
qed


section \<open>Failures, the stamped hash and the project state\<close>

lemmas run_defs =
  run_all_def run_step_def enter_step_def check_if_must_be_run_def was_run_def load_results_def
  skip_step_def stamp_hash_def execute_step_def call_def fill_step_states_def add_result_def
  get_results_def get_full_step_name_def get_name_with_id_def get_step_id_def get_model_name_def
  get_hash_def add_step_def set_step_id_def init_project_def plain_step_def model_step_def
  do_add_def do_raise_def has_key_def stored_def Let_def



lemma map_of_update_same: "map_of (AList.update k v al) k = Some v"
  by (simp add: update_conv')

lemma map_of_update_other: "k \<noteq> k' \<Longrightarrow> map_of (AList.update k' v al) k = map_of al k"
  by (simp add: update_conv')











lemma call_fst:
  "fst (call a p) =
     (case do (heap p a) (step_states p) (get_results (heap p a)) of
        Returned x \<Rightarrow> None | Raised msg x \<Rightarrow> Some (DoException msg))"
  by (simp add: call_def get_results_def Let_def split: option.splits do_outcome.splits)

text \<open>
  C6. Whenever a turn of the loop executes the step (the rerun decision returned and
  said so, or the run is forced), \<open>call\<close> is applied to the project in which the step's
  results hold the step's fingerprint under \<open>hash\<close>: the stamp is the last thing done
  before \<open>call\<close>, \<open>do\<close> is run on the stamped results, and the fingerprint is the one the
  step had at the beginning of the turn and still has at its end, which is what a later
  rerun decision compares with.
\<close>

theorem hash_stamped_before_execute:
  assumes "check_if_must_be_run (step r) (checks r) (enter_step r p) = (Inr must, p3)"
    and "must \<or> force"
    and "a = step r"
    and "p4 = stamp_hash a p3"
  shows "run_step force r st p = (None, execute_step a (checks r) st p4)
    \<and> get_results (heap p4 a) ''hash'' = Some (VStr (get_hash (heap p4 a)))
    \<and> get_hash (heap p4 a) = get_hash (heap p a)
    \<and> fst (call a p4) =
        (case do (heap p4 a) (step_states p4) (get_results (heap p4 a)) of
           Returned x \<Rightarrow> None | Raised msg x \<Rightarrow> Some (DoException msg))
    \<and> get_hash (heap (snd (snd (run_step force r st p))) a) = get_hash (heap p a)"
proof -
  have turn: "run_step force r st p = (None, execute_step a (checks r) st p4)"
    using run_step_execute [OF assms(1,2)] assms(3,4) by simp
  have "static (heap p3 a) = static (heap p a)"
    using decision_static [OF assms(1)] by simp
  then have fp: "get_hash (heap p4 a) = get_hash (heap p a)"
    using assms(4) static_eqD(4) [of "heap p4 a" "heap p a"] by simp
  have "get_results (heap p4 a) ''hash'' = Some (VStr (get_hash (heap p3 a)))"
    using assms(4) by (simp add: get_results_def stamp_hash_results)
  moreover have "get_hash (heap p3 a) = get_hash (heap p4 a)"
    using assms(4) static_eqD(4) [of "heap p4 a" "heap p3 a"] by simp
  ultimately have stamped: "get_results (heap p4 a) ''hash'' = Some (VStr (get_hash (heap p4 a)))"
    by simp
  obtain x st' p' where t: "run_step force r st p = (x, st', p')"
    by (cases "run_step force r st p")
  have after: "get_hash (heap (snd (snd (run_step force r st p))) a) = get_hash (heap p a)"
    using run_step_static [OF t, of a] t static_eqD(4) [of "heap p' a" "heap p a"] by simp
  show ?thesis by (rule conjI turn stamped fp after call_fst)+
qed

text \<open>
  The first run of a step with an empty store: the results handed to \<open>call\<close> hold the
  fingerprint \<open>aa11\<close> under \<open>hash\<close>, and so do the results in the status table.
\<close>

theorem hash_stamped_before_execute_witness:
  "get_results (heap (stamp_hash 0
       (enter_step \<lparr>step = 0, checks = [has_key ''rows''], skipped_metrics = []\<rparr> one_step)) 0) ''hash''
     = Some (VStr ''aa11'')
   \<and> get_hash (heap one_step 0) = ''aa11''
   \<and> run_step False \<lparr>step = 0, checks = [has_key ''rows''], skipped_metrics = []\<rparr> [] one_step
     = (None, execute_step 0 [has_key ''rows''] []
         (stamp_hash 0 (enter_step \<lparr>step = 0, checks = [has_key ''rows''], skipped_metrics = []\<rparr> one_step)))"
proof -
  let ?r = "\<lparr>step = 0, checks = [has_key ''rows''], skipped_metrics = []\<rparr>"
  have d: "check_if_must_be_run (step ?r) (checks ?r) (enter_step ?r one_step)
      = (Inr True, enter_step ?r one_step)"
    by (simp add: one_step_def three_heap_def run_defs)
  have h: "get_hash (heap one_step 0) = ''aa11''" by (simp add: one_step_0)
  from hash_stamped_before_execute [OF d _ refl refl, of False "[]"] h
  show ?thesis by simp
qed

lemma run_step_states:
  assumes "run_step f r st p = (None, st', p')"
  shows "\<exists>q. p' = fill_step_states (step r) q \<and> step_states q = step_states p"
proof -
  let ?a = "step r"
  obtain d p3 where d: "check_if_must_be_run ?a (checks r) (enter_step r p) = (d, p3)"
    by (cases "check_if_must_be_run ?a (checks r) (enter_step r p)")
  have s3: "step_states p3 = step_states p" using decision_frame(2) [OF d] by simp
  show ?thesis
  proof (cases d)
    case (Inl e)
    with d assms show ?thesis using run_step_raise by fastforce
  next
    case (Inr must)
    show ?thesis
    proof (cases "must \<or> f")
      case False
      with d Inr have "run_step f r st p = (None, skip_step ?a st p3)"
        using run_step_skip by simp
      with assms have "p' = fill_step_states ?a p3" by (simp add: skip_step_def)
      with s3 show ?thesis by blast
    next
      case True
      with d Inr have e: "run_step f r st p
          = (None, execute_step ?a (checks r) st (stamp_hash ?a p3))"
        using run_step_execute by blast
      show ?thesis
      proof (cases rule: execute_step_cases [of ?a "stamp_hash ?a p3" "checks r" st])
        case (completed p4)
        have "step_states p4 = step_states p"
          using call_frame(2) [of ?a "stamp_hash ?a p3"] completed(1) s3 by simp
        moreover have "p' = fill_step_states ?a p4" using completed(3) e assms by simp
        ultimately show ?thesis by blast
      next
        case (failed raised p4 e')
        let ?q = "p4\<lparr>out := out p4 @ [StepFailedMsg (get_full_step_name (heap p4 ?a)) e']\<rparr>"
        have "step_states ?q = step_states p"
          using call_frame(2) [of ?a "stamp_hash ?a p3"] failed(1) s3 by simp
        moreover have "p' = fill_step_states ?a ?q" using failed(3) e assms by simp
        ultimately show ?thesis by blast
      qed
    qed
  qed
qed

lemma fill_step_states_other:
  assumes "(k, l) \<noteq> (get_model_name (heap q a), get_name_with_id (heap q a))"
  shows "(case step_states (fill_step_states a q) k of None \<Rightarrow> None | Some m \<Rightarrow> m l)
    = (case step_states q k of None \<Rightarrow> None | Some m \<Rightarrow> m l)"
  using assms by (auto simp: fill_step_states_def Let_def split: option.splits)

text \<open>
  C7. Let a turn of the loop end normally for a record whose step has, when the turn
  begins, the index \<open>i\<close>, the name \<open>n\<close> and the model name \<open>m\<close> (the class name of its
  model, or the empty string for a plain step). Then the turn has written a status
  \<open>Skipped\<close>, \<open>Completed\<close> or \<open>Failed\<close> with the step's results under the step's full name,
  and the project state holds, under the model name \<open>m\<close> and under the label made of the
  decimal string of \<open>i\<close>, an underscore and \<open>n\<close>, the results the step has at the end of
  the turn. Index, name and model name are the same at the end of the turn, every
  other entry of the project state is as before the turn, and the loop takes the next
  record only from that project.
\<close>

theorem state_filled_each_turn:
  assumes "run_step force r st p = (None, st', p')"
    and "s = heap p (step r)"
    and "s' = heap p' (step r)"
    and "m = (case model s of None \<Rightarrow> [] | Some x \<Rightarrow> class_name x)"
    and "label = str_int (idx s) @ ''_'' @ name s"
  shows "(\<exists>inner. step_states p' m = Some inner \<and> inner label = Some (results s'))
    \<and> (\<exists>t \<in> {''Skipped'', ''Completed'', ''Failed''}.
          map_of st' (get_full_step_name s) = Some \<lparr>status = t, status_results = results s'\<rparr>)
    \<and> idx s' = idx s \<and> name s' = name s
    \<and> (case model s' of None \<Rightarrow> [] | Some x \<Rightarrow> class_name x) = m
    \<and> (\<forall>k l. (k, l) \<noteq> (m, label) \<longrightarrow>
          (case step_states p' k of None \<Rightarrow> None | Some x \<Rightarrow> x l)
            = (case step_states p k of None \<Rightarrow> None | Some x \<Rightarrow> x l))
    \<and> run_steps force (r # rs) st p = run_steps force rs st' p'"
proof -
  from run_step_shape [OF assms(1)] obtain q t where
    sh: "p' = fill_step_states (step r) q
      \<and> st' = AList.update (get_full_step_name (heap q (step r)))
              \<lparr>status = t, status_results = get_results (heap q (step r))\<rparr> st
      \<and> t \<in> {''Skipped'', ''Completed'', ''Failed''}
      \<and> (force \<longrightarrow> t \<noteq> ''Skipped'')
      \<and> (\<forall>b. static (heap q b) = static (heap p b))
      \<and> (t = ''Skipped'' \<longrightarrow> store q = store p)"
    by (elim exE)
  note p' = sh [THEN conjunct1]
  note st' = sh [THEN conjunct2, THEN conjunct1]
  note t = sh [THEN conjunct2, THEN conjunct2, THEN conjunct1]
  note sq = sh [THEN conjunct2, THEN conjunct2, THEN conjunct2, THEN conjunct2, THEN conjunct1]
  have s': "s' = heap q (step r)" using assms(3) p' by simp
  have stat: "static s' = static s" using sq s' assms(2) by simp
  have mk: "get_model_name s' = m"
    using static_eqD(3) [OF stat] assms(4) by (simp add: get_model_name_def)
  have lb: "get_name_with_id s' = label"
    using static_eqD(1,2) [OF stat] assms(5) by (simp add: get_name_with_id_def)
  have fn: "get_full_step_name s' = get_full_step_name s" using static_eqD(7) [OF stat] .
  have fill: "\<exists>inner. step_states p' m = Some inner \<and> inner label = Some (results s')"
    using fill_step_states_entry [of "step r" q] p' s' mk lb by (simp add: get_results_def)
  have tab: "map_of st' (get_full_step_name s) = Some \<lparr>status = t, status_results = results s'\<rparr>"
    using st' s' fn by (simp add: map_of_update_same get_results_def)
  have tab': "\<exists>t \<in> {''Skipped'', ''Completed'', ''Failed''}.
          map_of st' (get_full_step_name s) = Some \<lparr>status = t, status_results = results s'\<rparr>"
  proof (rule bexI [where x = t])
    show "map_of st' (get_full_step_name s) = Some \<lparr>status = t, status_results = results s'\<rparr>"
      by (rule tab)
    show "t \<in> {''Skipped'', ''Completed'', ''Failed''}" by (rule t)
  qed
  have i: "idx s' = idx s" and n: "name s' = name s"
    using static_eqD(1,2) [OF stat] by simp_all
  have mk': "(case model s' of None \<Rightarrow> [] | Some x \<Rightarrow> class_name x) = m"
    using mk by (simp add: get_model_name_def)
  from run_step_states [OF assms(1)] obtain q' where
    q': "p' = fill_step_states (step r) q'" and ss: "step_states q' = step_states p"
    by (elim exE conjE)
  have hq: "heap q' = heap p'" using q' by simp
  have other: "\<forall>k l. (k, l) \<noteq> (m, label) \<longrightarrow>
          (case step_states p' k of None \<Rightarrow> None | Some x \<Rightarrow> x l)
            = (case step_states p k of None \<Rightarrow> None | Some x \<Rightarrow> x l)"
  proof (intro allI impI)
    fix k l assume "(k, l) \<noteq> (m, label)"
    then have "(k, l) \<noteq> (get_model_name (heap q' (step r)), get_name_with_id (heap q' (step r)))"
      using hq assms(3) mk lb by simp
    from fill_step_states_other [OF this] q' ss
    show "(case step_states p' k of None \<Rightarrow> None | Some x \<Rightarrow> x l)
            = (case step_states p k of None \<Rightarrow> None | Some x \<Rightarrow> x l)"
      by simp
  qed
  have loop: "run_steps force (r # rs) st p = run_steps force rs st' p'"
    using assms(1) by simp
  show ?thesis by (rule conjI fill tab' i n mk' other loop)+
qed

text \<open>
  The model step of class \<open>Resnet\<close> registered second, with the name \<open>Train\<close>: its
  results are filed under the model name \<open>Resnet\<close> and the label \<open>2_Train\<close>, while its
  status is under the full name \<open>Resnet_2_Train\<close>. A plain step, completed and then
  skipped: its results are filed under the empty model name and the label \<open>1_Load\<close>.
\<close>

theorem state_filled_each_turn_witness:
  "(\<exists>inner. step_states (snd (snd (run_step False
        \<lparr>step = 1, checks = [], skipped_metrics = []\<rparr> [] two_steps))) ''Resnet'' = Some inner
      \<and> inner ''2_Train'' = Some [''hash'' \<mapsto> VStr ''bb22'', ''loss'' \<mapsto> VInt 3])
   \<and> map (\<lambda>(n, t). (n, status t)) (fst (snd (run_step False
        \<lparr>step = 1, checks = [], skipped_metrics = []\<rparr> [] two_steps)))
      = [(''Resnet_2_Train'', ''Completed'')]
   \<and> (\<exists>inner. step_states (snd (snd (run_step False
        \<lparr>step = 0, checks = [has_key ''rows''], skipped_metrics = []\<rparr> [] one_step))) [] = Some inner
      \<and> inner ''1_Load'' = Some [''hash'' \<mapsto> VStr ''aa11'', ''rows'' \<mapsto> VInt 10])
   \<and> map (\<lambda>(n, t). (n, status t)) (fst (snd (run_step False
        \<lparr>step = 0, checks = [has_key ''rows''], skipped_metrics = []\<rparr> [] one_step)))
      = [(''1_Load'', ''Completed'')]
   \<and> (\<exists>inner. step_states (snd (snd (run_step False
        \<lparr>step = 0, checks = [has_key ''rows''], skipped_metrics = []\<rparr> []
        (stored (''1'', ''Load'') [''hash'' \<mapsto> VStr ''aa11'', ''rows'' \<mapsto> VInt 7] one_step)))) [] = Some inner
      \<and> inner ''1_Load'' = Some [''hash'' \<mapsto> VStr ''aa11'', ''rows'' \<mapsto> VInt 7])
   \<and> map (\<lambda>(n, t). (n, status t)) (fst (snd (run_step False
        \<lparr>step = 0, checks = [has_key ''rows''], skipped_metrics = []\<rparr> []
        (stored (''1'', ''Load'') [''hash'' \<mapsto> VStr ''aa11'', ''rows'' \<mapsto> VInt 7] one_step))))
      = [(''1_Load'', ''Skipped'')]"
proof -
  let ?m = "\<lparr>step = 1, checks = [], skipped_metrics = []\<rparr>"
  let ?v = "run_step False ?m [] two_steps"
  let ?r = "\<lparr>step = 0, checks = [has_key ''rows''], skipped_metrics = []\<rparr>"
  let ?t = "run_step False ?r [] one_step"
  let ?q = "stored (''1'', ''Load'') [''hash'' \<mapsto> VStr ''aa11'', ''rows'' \<mapsto> VInt 7] one_step"
  let ?u = "run_step False ?r [] ?q"
  have v: "?v = (None, fst (snd ?v), snd (snd ?v))"
    by (simp add: two_steps_def three_heap_def run_defs)
  have t: "?t = (None, fst (snd ?t), snd (snd ?t))"
    by (simp add: one_step_def three_heap_def run_defs)
  have u: "?u = (None, fst (snd ?u), snd (snd ?u))"
    by (simp add: one_step_def three_heap_def run_defs)
  have rv: "results (heap (snd (snd ?v)) 1) = [''hash'' \<mapsto> VStr ''bb22'', ''loss'' \<mapsto> VInt 3]"
    and sv: "map (\<lambda>(n, t). (n, status t)) (fst (snd ?v)) = [(''Resnet_2_Train'', ''Completed'')]"
    and iv: "(case model (heap two_steps 1) of None \<Rightarrow> [] | Some x \<Rightarrow> class_name x) = ''Resnet''"
      "str_int (idx (heap two_steps 1)) @ ''_'' @ name (heap two_steps 1) = ''2_Train''"
    by (simp_all add: two_steps_def three_heap_def run_defs)
  have rt: "results (heap (snd (snd ?t)) 0) = [''hash'' \<mapsto> VStr ''aa11'', ''rows'' \<mapsto> VInt 10]"
    and st: "map (\<lambda>(n, t). (n, status t)) (fst (snd ?t)) = [(''1_Load'', ''Completed'')]"
    and it: "(case model (heap one_step 0) of None \<Rightarrow> [] | Some x \<Rightarrow> class_name x) = []"
      "str_int (idx (heap one_step 0)) @ ''_'' @ name (heap one_step 0) = ''1_Load''"
    by (simp_all add: one_step_def three_heap_def run_defs)
  have ru: "results (heap (snd (snd ?u)) 0) = [''hash'' \<mapsto> VStr ''aa11'', ''rows'' \<mapsto> VInt 7]"
    and su: "map (\<lambda>(n, t). (n, status t)) (fst (snd ?u)) = [(''1_Load'', ''Skipped'')]"
    and iu: "(case model (heap ?q 0) of None \<Rightarrow> [] | Some x \<Rightarrow> class_name x) = []"
      "str_int (idx (heap ?q 0)) @ ''_'' @ name (heap ?q 0) = ''1_Load''"
    by (simp_all add: one_step_def three_heap_def run_defs)
  from state_filled_each_turn [OF v refl refl refl refl, THEN conjunct1] rv iv
  have c: "\<exists>inner. step_states (snd (snd ?v)) ''Resnet'' = Some inner
      \<and> inner ''2_Train'' = Some [''hash'' \<mapsto> VStr ''bb22'', ''loss'' \<mapsto> VInt 3]"
    by simp
  from state_filled_each_turn [OF t refl refl refl refl, THEN conjunct1] rt it
  have a: "\<exists>inner. step_states (snd (snd ?t)) [] = Some inner
      \<and> inner ''1_Load'' = Some [''hash'' \<mapsto> VStr ''aa11'', ''rows'' \<mapsto> VInt 10]"
    by simp
  from state_filled_each_turn [OF u refl refl refl refl, THEN conjunct1] ru iu
  have b: "\<exists>inner. step_states (snd (snd ?u)) [] = Some inner
      \<and> inner ''1_Load'' = Some [''hash'' \<mapsto> VStr ''aa11'', ''rows'' \<mapsto> VInt 7]"
    by simp
  show ?thesis by (rule conjI c sv a st b su)+
qed

section \<open>A forced run\<close>

lemma run_steps_forced_status:
  assumes "run_steps True rs st p = (None, st', p')"
  shows "(\<forall>k. (\<exists>t. map_of st k = Some t \<and> status t \<in> {''Completed'', ''Failed''}) \<longrightarrow>
              (\<exists>t. map_of st' k = Some t \<and> status t \<in> {''Completed'', ''Failed''}))
    \<and> (\<forall>r \<in> set rs. \<exists>t. map_of st' (get_full_step_name (heap p (step r))) = Some t
              \<and> status t \<in> {''Completed'', ''Failed''})"
  using assms
proof (induction rs arbitrary: st p)
  case Nil
  then show ?case by simp
next
  case (Cons r rs)
  obtain x st1 p1 where t: "run_step True r st p = (x, st1, p1)"
    by (cases "run_step True r st p")
  have x: "x = None" using t Cons.prems by (cases x) simp_all
  with t Cons.prems have rest: "run_steps True rs st1 p1 = (None, st', p')" by simp
  note ih = Cons.IH [OF rest]
  from run_step_shape [OF t [unfolded x]] obtain q u where
    sh: "p1 = fill_step_states (step r) q
      \<and> st1 = AList.update (get_full_step_name (heap q (step r)))
              \<lparr>status = u, status_results = get_results (heap q (step r))\<rparr> st
      \<and> u \<in> {''Skipped'', ''Completed'', ''Failed''}
      \<and> (True \<longrightarrow> u \<noteq> ''Skipped'')
      \<and> (\<forall>b. static (heap q b) = static (heap p b))
      \<and> (u = ''Skipped'' \<longrightarrow> store q = store p)"
    by (elim exE)
  note st1 = sh [THEN conjunct2, THEN conjunct1]
  note u1 = sh [THEN conjunct2, THEN conjunct2, THEN conjunct1]
  note u2 = sh [THEN conjunct2, THEN conjunct2, THEN conjunct2, THEN conjunct1]
  note sq = sh [THEN conjunct2, THEN conjunct2, THEN conjunct2, THEN conjunct2, THEN conjunct1]
  from u1 u2 have u: "u \<in> {''Completed'', ''Failed''}" by simp
  have name_r: "get_full_step_name (heap q (step r)) = get_full_step_name (heap p (step r))"
    using sq static_eqD(7) by blast
  have keep1: "\<exists>t. map_of st1 k = Some t \<and> status t \<in> {''Completed'', ''Failed''}"
    if "\<exists>t. map_of st k = Some t \<and> status t \<in> {''Completed'', ''Failed''}" for k
  proof (cases "k = get_full_step_name (heap q (step r))")
    case True
    then show ?thesis using st1 u by (simp add: map_of_update_same)
  next
    case False
    then show ?thesis using st1 that by (simp add: map_of_update_other)
  qed
  have here: "\<exists>t. map_of st1 (get_full_step_name (heap p (step r))) = Some t
      \<and> status t \<in> {''Completed'', ''Failed''}"
    using st1 u name_r by (simp add: map_of_update_same)
  have names: "get_full_step_name (heap p1 b) = get_full_step_name (heap p b)" for b
    using run_step_static [OF t] static_eqD(7) by blast
  show ?case
  proof (intro conjI allI impI ballI)
    fix k assume "\<exists>t. map_of st k = Some t \<and> status t \<in> {''Completed'', ''Failed''}"
    then show "\<exists>t. map_of st' k = Some t \<and> status t \<in> {''Completed'', ''Failed''}"
      using keep1 ih by blast
  next
    fix r' assume "r' \<in> set (r # rs)"
    then consider "r' = r" | "r' \<in> set rs" by auto
    then show "\<exists>t. map_of st' (get_full_step_name (heap p (step r'))) = Some t
        \<and> status t \<in> {''Completed'', ''Failed''}"
    proof cases
      case 1
      then show ?thesis using here ih by blast
    next
      case 2
      then show ?thesis using ih names by metis
    qed
  qed
qed

text \<open>
  C5, as the claim states it, fails. In a forced run the rerun decision is evaluated all
  the same: with a stored entry under another hash the forced run prints the notice of
  a changed model, which only \<open>check_if_must_be_run\<close> prints; and with a stored entry
  that has no \<open>hash\<close> the forced run ends with the \<open>KeyError\<close> of the decision, the step
  not executed and the store as it was.
\<close>

theorem forced_run_decision_counterexample:
  "take 1 (out (snd (run_all True
      (stored (''1'', ''Load'') [''hash'' \<mapsto> VStr ''0000'', ''rows'' \<mapsto> VInt 10] one_step))))
     = [ModelChanged ''1_Load'']
   \<and> fst (run_all True (stored (''1'', ''Load'') [''rows'' \<mapsto> VInt 10] one_step))
     = Some (KeyError ''hash'')
   \<and> store (snd (run_all True (stored (''1'', ''Load'') [''rows'' \<mapsto> VInt 10] one_step)))
     = store (stored (''1'', ''Load'') [''rows'' \<mapsto> VInt 10] one_step)"
  by (simp add: one_step_def three_heap_def run_defs)

text \<open>
  C5, amended. In a forced run the rerun decision is still evaluated first in every
  turn, and its answer is not used: whenever it returns, true or false, the step is
  executed, from the project the decision left (with the stored results loaded) and
  stamped with the hash. So when the loop of a forced run ends normally every record's
  step has the status \<open>Completed\<close> or \<open>Failed\<close>, never \<open>Skipped\<close>.
\<close>

theorem forced_run_executes:
  "(\<forall>must p3. check_if_must_be_run (step r) (checks r) (enter_step r p) = (Inr must, p3) \<longrightarrow>
       run_step True r st p
         = (None, execute_step (step r) (checks r) st (stamp_hash (step r) p3)))
   \<and> (\<forall>rs st' p'. run_steps True rs st p = (None, st', p') \<longrightarrow>
       (\<forall>r' \<in> set rs. \<exists>t. map_of st' (get_full_step_name (heap p (step r'))) = Some t
            \<and> status t \<in> {''Completed'', ''Failed''}))"
proof (intro conjI allI impI)
  fix must p3
  assume "check_if_must_be_run (step r) (checks r) (enter_step r p) = (Inr must, p3)"
  then show "run_step True r st p
         = (None, execute_step (step r) (checks r) st (stamp_hash (step r) p3))"
    by (rule run_step_execute) simp
next
  fix rs st' p'
  assume "run_steps True rs st p = (None, st', p')"
  then show "\<forall>r' \<in> set rs. \<exists>t. map_of st' (get_full_step_name (heap p (step r'))) = Some t
            \<and> status t \<in> {''Completed'', ''Failed''}"
    by (rule run_steps_forced_status [THEN conjunct2])
qed

text \<open>
  A step whose stored results pass the check and carry the current fingerprint: the
  decision answers false, and the forced run executes the step all the same.
\<close>

theorem forced_run_executes_witness:
  "check_if_must_be_run 0 [has_key ''rows'']
      (enter_step \<lparr>step = 0, checks = [has_key ''rows''], skipped_metrics = []\<rparr>
        (stored (''1'', ''Load'') [''hash'' \<mapsto> VStr ''aa11'', ''rows'' \<mapsto> VInt 7] one_step))
     = (Inr False,
        (enter_step \<lparr>step = 0, checks = [has_key ''rows''], skipped_metrics = []\<rparr>
          (stored (''1'', ''Load'') [''hash'' \<mapsto> VStr ''aa11'', ''rows'' \<mapsto> VInt 7] one_step))
        \<lparr>heap := (heap one_step)
           (0 := (heap one_step 0)\<lparr>results := [''hash'' \<mapsto> VStr ''aa11'', ''rows'' \<mapsto> VInt 7]\<rparr>)\<rparr>)
   \<and> (\<exists>t. map_of (fst (snd (run_steps True
          [\<lparr>step = 0, checks = [has_key ''rows''], skipped_metrics = []\<rparr>] []
          (stored (''1'', ''Load'') [''hash'' \<mapsto> VStr ''aa11'', ''rows'' \<mapsto> VInt 7] one_step))))
          ''1_Load'' = Some t
        \<and> status t \<in> {''Completed'', ''Failed''})
   \<and> results (heap (snd (run_all True
          (stored (''1'', ''Load'') [''hash'' \<mapsto> VStr ''aa11'', ''rows'' \<mapsto> VInt 7] one_step))) 0) ''rows''
      = Some (VInt 10)"
proof -
  let ?r = "\<lparr>step = 0, checks = [has_key ''rows''], skipped_metrics = []\<rparr>"
  let ?q = "stored (''1'', ''Load'') [''hash'' \<mapsto> VStr ''aa11'', ''rows'' \<mapsto> VInt 7] one_step"
  let ?l = "run_steps True [?r] [] ?q"
  have d: "check_if_must_be_run 0 [has_key ''rows''] (enter_step ?r ?q)
     = (Inr False, (enter_step ?r ?q)
        \<lparr>heap := (heap one_step)
           (0 := (heap one_step 0)\<lparr>results := [''hash'' \<mapsto> VStr ''aa11'', ''rows'' \<mapsto> VInt 7]\<rparr>)\<rparr>)"
    by (simp add: one_step_def three_heap_def run_defs)
  have l: "?l = (None, fst (snd ?l), snd (snd ?l))"
    by (simp add: one_step_def three_heap_def run_defs)
  have n: "get_full_step_name (heap ?q (step ?r)) = ''1_Load''"
    by (simp add: one_step_def three_heap_def run_defs)
  have "\<forall>r' \<in> set [?r]. \<exists>t. map_of (fst (snd ?l)) (get_full_step_name (heap ?q (step r'))) = Some t
            \<and> status t \<in> {''Completed'', ''Failed''}"
    using forced_run_executes [of ?r ?q "[]", THEN conjunct2, THEN spec, THEN spec, THEN spec,
        THEN mp, OF l] .
  with n have e: "\<exists>t. map_of (fst (snd ?l)) ''1_Load'' = Some t
        \<and> status t \<in> {''Completed'', ''Failed''}"
    by simp
  have x: "results (heap (snd (run_all True ?q)) 0) ''rows'' = Some (VInt 10)"
    by (simp add: one_step_def three_heap_def run_defs)
  show ?thesis by (rule conjI d e x)+
qed

section \<open>Running the pipeline twice\<close>


lemma full_name_of_key:
  "get_step_id s = get_step_id t \<Longrightarrow> name s = name t \<Longrightarrow>
   get_full_step_name s = get_full_step_name t"
  by (simp add: get_full_step_name_def)














end
